theory Spec2Isabelle
  imports Complex_Main
begin

section \<open>Numbers\<close>

text \<open>
  JavaScript numbers are represented by real numbers: the arithmetic of the calculator is
  taken exactly, the rounding of IEEE doubles is not represented. The one division of the
  calculator whose divisor can be zero is the one of \<open>calculateMonthlyPayment\<close>; there
  JavaScript yields \<open>Infinity\<close>, \<open>-Infinity\<close> or \<open>NaN\<close>, which \<open>jsnum\<close> keeps apart
  from the finite results.
\<close>

datatype jsnum = Finite real | PosInfinity | NegInfinity | NaN

definition js_div :: "real \<Rightarrow> real \<Rightarrow> jsnum" where
  "js_div a b =
     (if b = 0 then (if 0 < a then PosInfinity else if a < 0 then NegInfinity else NaN)
      else Finite (a / b))"

text \<open>
  The payment as the loops use it. A loop body is only run with a finite payment, except
  for the single rate \<open>annualRate = -2400\<close> (monthly rate \<open>-2\<close>) with a positive term,
  where JavaScript continues with \<open>-Infinity\<close>; that input is outside this embedding.
\<close>

fun num :: "jsnum \<Rightarrow> real" where
  "num (Finite x) = x"
| "num PosInfinity = 0"
| "num NegInfinity = 0"
| "num NaN = 0"

section \<open>Dates\<close>

text \<open>
  A \<open>Date\<close> object is the calendar day it denotes. The host's time zone is taken to be
  UTC, so that \<open>new Date('YYYY-MM-01')\<close> is the first day of that month at midnight and
  the local getters and setters work on that day; other time zones are not represented.
  \<open>getMonth\<close> counts from 0, \<open>getDate\<close> from 1. A string \<open>'YYYY-MM'\<close> is the pair of
  its year and its month number; a month number outside 1 to 12 stands for a string that
  JavaScript does not parse, which is not represented either.
\<close>

record jsdate =
  getFullYear :: nat
  getMonth :: nat
  getDate :: nat

type_synonym year_month = "nat \<times> nat"

definition isLeapYear :: "nat \<Rightarrow> bool" where
  "isLeapYear y =
     (if y mod 400 = 0 then True else if y mod 100 = 0 then False else y mod 4 = 0)"

definition daysInMonth :: "nat \<Rightarrow> nat \<Rightarrow> nat" where
  "daysInMonth y m =
     (if m = 1 then (if isLeapYear y then 29 else 28)
      else if m = 3 \<or> m = 5 \<or> m = 8 \<or> m = 10 then 30
      else 31)"

text \<open>
  Setting a day of the month beyond the month's end carries over into the following
  months, as \<open>setDate\<close> and \<open>setMonth\<close> do.
\<close>

function normalizeDate :: "nat \<Rightarrow> nat \<Rightarrow> nat \<Rightarrow> jsdate" where
  "normalizeDate y m d =
     (if daysInMonth y m < d then
        (if 11 \<le> m then normalizeDate (y + 1) 0 (d - daysInMonth y m)
         else normalizeDate y (m + 1) (d - daysInMonth y m))
      else \<lparr>getFullYear = y, getMonth = m, getDate = d\<rparr>)"
  by pat_completeness auto
termination
  by (relation "measure (\<lambda>(y, m, d). d)") (auto simp: daysInMonth_def)

declare normalizeDate.simps [simp del]

definition setMonth :: "jsdate \<Rightarrow> nat \<Rightarrow> jsdate" where
  "setMonth dt m = normalizeDate (getFullYear dt + m div 12) (m mod 12) (getDate dt)"

definition setDate :: "jsdate \<Rightarrow> nat \<Rightarrow> jsdate" where
  "setDate dt d = normalizeDate (getFullYear dt) (getMonth dt) d"

definition daysBeforeYear :: "nat \<Rightarrow> nat" where
  "daysBeforeYear y = 365 * y + (y + 3) div 4 - (y + 99) div 100 + (y + 399) div 400"

definition daysBeforeMonth :: "nat \<Rightarrow> nat \<Rightarrow> nat" where
  "daysBeforeMonth y m = sum_list (map (daysInMonth y) [0..<m])"

text \<open>Days since 1970-01-01, and \<open>getTime\<close>, the milliseconds since then.\<close>

definition dayNumber :: "jsdate \<Rightarrow> int" where
  "dayNumber dt =
     int (daysBeforeYear (getFullYear dt) + daysBeforeMonth (getFullYear dt) (getMonth dt)
          + getDate dt) - 1 - 719528"

definition getTime :: "jsdate \<Rightarrow> int" where
  "getTime dt = 86400000 * dayNumber dt"

text \<open>\<open>parseDate(dateStr)\<close> is \<open>new Date(dateStr + '-01')\<close>.\<close>

definition parseDate :: "year_month \<Rightarrow> jsdate" where
  "parseDate dateStr = \<lparr>getFullYear = fst dateStr, getMonth = snd dateStr - 1, getDate = 1\<rparr>"

definition formatDate :: "jsdate \<Rightarrow> year_month" where
  "formatDate dt = (getFullYear dt, getMonth dt + 1)"

section \<open>The monthly payment\<close>

definition calculateMonthlyPayment :: "real \<Rightarrow> real \<Rightarrow> nat \<Rightarrow> jsnum" where
  "calculateMonthlyPayment principal' annualRate termYears =
     (if annualRate = 0 then js_div principal' (real (termYears * 12))
      else
        (let monthlyRate = annualRate / 100 / 12;
             numPayments = termYears * 12
         in js_div (principal' * (monthlyRate * (1 + monthlyRate) ^ numPayments))
                   ((1 + monthlyRate) ^ numPayments - 1)))"

section \<open>Schedules\<close>

text \<open>
  The loan: \<open>principal'\<close> is its key \<open>principal\<close>, and \<open>termYears\<close> is a whole number
  of years, as the application reads it.
\<close>

record loanData =
  principal' :: real
  annualRate :: real
  termYears :: nat
  startDate :: year_month

text \<open>One row of a schedule; \<open>principalPart\<close> is the row's key \<open>principal\<close>.\<close>

record entry =
  paymentNumber :: nat
  date :: year_month
  dateObj :: jsdate
  payment :: real
  principalPart :: real
  interest :: real
  extraPayment :: real
  balance :: real
  cumulativeInterest :: real

record scheduleResult =
  schedule :: "entry list"
  monthlyPayment :: jsnum
  totalInterest :: real
  totalPayments :: nat
  payoffDate :: year_month

text \<open>
  The variables of a scheduling loop. \<open>generateOriginalSchedule\<close> has no
  \<open>lumpSumApplied\<close>, and only the bi-weekly loop has \<open>dayCounter\<close>: in the other loops
  they keep their initial values.
\<close>

record loopState =
  st_balance :: real
  st_cumulativeInterest :: real
  st_paymentNumber :: nat
  st_dayCounter :: nat
  st_lumpSumApplied :: bool
  st_schedule :: "entry list"

definition initialState :: "real \<Rightarrow> loopState" where
  "initialState p =
     \<lparr>st_balance = p, st_cumulativeInterest = 0, st_paymentNumber = 0, st_dayCounter = 0,
      st_lumpSumApplied = False, st_schedule = []\<rparr>"

text \<open>The object returned after the loops: \<open>schedule[schedule.length - 1]?.date || formatDate(start)\<close>.\<close>

definition resultOf :: "jsnum \<Rightarrow> jsdate \<Rightarrow> loopState \<Rightarrow> scheduleResult" where
  "resultOf mp start s =
     \<lparr>schedule = st_schedule s,
      monthlyPayment = mp,
      totalInterest = st_cumulativeInterest s,
      totalPayments = st_paymentNumber s,
      payoffDate = (case st_schedule s of [] \<Rightarrow> formatDate start | _ \<Rightarrow> date (last (st_schedule s)))\<rparr>"

subsection \<open>generateOriginalSchedule\<close>

definition originalBody :: "real \<Rightarrow> real \<Rightarrow> jsdate \<Rightarrow> loopState \<Rightarrow> loopState" where
  "originalBody mp monthlyRate start s =
     (let pn = st_paymentNumber s + 1;
          paymentDate = setMonth start (getMonth start + pn - 1);
          interestPayment = st_balance s * monthlyRate;
          principalPayment0 = mp - interestPayment;
          principalPayment = (if principalPayment0 > st_balance s then st_balance s else principalPayment0);
          actualPayment = principalPayment + interestPayment;
          bal = st_balance s - principalPayment;
          cum = st_cumulativeInterest s + interestPayment
      in \<lparr>st_balance = bal,
          st_cumulativeInterest = cum,
          st_paymentNumber = pn,
          st_dayCounter = st_dayCounter s,
          st_lumpSumApplied = st_lumpSumApplied s,
          st_schedule = st_schedule s @
            [\<lparr>paymentNumber = pn, date = formatDate paymentDate, dateObj = paymentDate,
              payment = actualPayment, principalPart = principalPayment,
              interest = interestPayment, extraPayment = 0, balance = max 0 bal,
              cumulativeInterest = cum\<rparr>]\<rparr>)"

function originalLoop :: "real \<Rightarrow> real \<Rightarrow> nat \<Rightarrow> jsdate \<Rightarrow> loopState \<Rightarrow> loopState" where
  "originalLoop mp monthlyRate n start s =
     (if st_balance s > 0.01 \<and> st_paymentNumber s < n
      then originalLoop mp monthlyRate n start (originalBody mp monthlyRate start s)
      else s)"
  by pat_completeness auto
termination
  by (relation "measure (\<lambda>(mp, r, n, start, s). n - st_paymentNumber s)")
     (auto simp: originalBody_def Let_def)

declare originalLoop.simps [simp del]

definition originalFinalState :: "loanData \<Rightarrow> loopState" where
  "originalFinalState loan =
     originalLoop (num (calculateMonthlyPayment (principal' loan) (annualRate loan) (termYears loan)))
       (annualRate loan / 100 / 12) (termYears loan * 12) (parseDate (startDate loan))
       (initialState (principal' loan))"

definition generateOriginalSchedule :: "loanData \<Rightarrow> scheduleResult" where
  "generateOriginalSchedule loan =
     resultOf (calculateMonthlyPayment (principal' loan) (annualRate loan) (termYears loan))
       (parseDate (startDate loan)) (originalFinalState loan)"

subsection \<open>generateAcceleratedSchedule\<close>

record accelerationOptions =
  extraMonthly :: real
  biweekly :: bool
  lumpSum :: real
  lumpSumDate :: "year_month option"
  annualExtra :: real
  annualExtraMonth :: nat

text \<open>\<open>lumpSumDateObj\<close>: \<open>null\<close> unless \<open>lumpSum > 0\<close> and a \<open>lumpSumDate\<close> is given.\<close>

definition lumpSumDateObjOf :: "accelerationOptions \<Rightarrow> jsdate option" where
  "lumpSumDateObjOf opts =
     (case lumpSumDate opts of
        None \<Rightarrow> None
      | Some d \<Rightarrow> (if lumpSum opts > 0 then Some (parseDate d) else None))"

definition biweeklyBody ::
  "real \<Rightarrow> real \<Rightarrow> jsdate \<Rightarrow> accelerationOptions \<Rightarrow> jsdate option \<Rightarrow> loopState \<Rightarrow> loopState" where
  "biweeklyBody biweeklyPayment annualRate' start opts lumpSumDateObj s =
     (let pn = st_paymentNumber s + 1;
          paymentDate = setDate start (getDate start + st_dayCounter s);
          dayCounter = st_dayCounter s + 14;
          dailyRate = (annualRate' / 100) / 365;
          periodInterest = st_balance s * dailyRate * 14;
          extra1 = (if extraMonthly opts > 0 then extraMonthly opts / 2.17 else 0);
          lumpFires = (\<not> st_lumpSumApplied s \<and>
            (case lumpSumDateObj of None \<Rightarrow> False
             | Some l \<Rightarrow> getTime paymentDate \<ge> getTime l));
          extra2 = (if lumpFires then extra1 + lumpSum opts else extra1);
          annualFires = (annualExtra opts > 0 \<and> getMonth paymentDate = annualExtraMonth opts \<and>
            (case st_schedule s of [] \<Rightarrow> True
             | _ \<Rightarrow> getMonth (dateObj (last (st_schedule s))) \<noteq> annualExtraMonth opts \<or>
                    getFullYear (dateObj (last (st_schedule s))) \<noteq> getFullYear paymentDate));
          extra = (if annualFires then extra2 + annualExtra opts else extra2);
          principalPayment0 = biweeklyPayment - periodInterest + extra;
          principalPayment = (if principalPayment0 > st_balance s then st_balance s else principalPayment0);
          periodPayment = (if principalPayment0 > st_balance s then principalPayment + periodInterest
                           else biweeklyPayment);
          bal = st_balance s - principalPayment;
          cum = st_cumulativeInterest s + periodInterest
      in \<lparr>st_balance = bal,
          st_cumulativeInterest = cum,
          st_paymentNumber = pn,
          st_dayCounter = dayCounter,
          st_lumpSumApplied = (if lumpFires then True else st_lumpSumApplied s),
          st_schedule = st_schedule s @
            [\<lparr>paymentNumber = pn, date = formatDate paymentDate, dateObj = paymentDate,
              payment = periodPayment, principalPart = principalPayment - extra,
              interest = periodInterest, extraPayment = extra, balance = max 0 bal,
              cumulativeInterest = cum\<rparr>]\<rparr>)"

function biweeklyLoop ::
  "real \<Rightarrow> real \<Rightarrow> nat \<Rightarrow> jsdate \<Rightarrow> accelerationOptions \<Rightarrow> jsdate option \<Rightarrow> loopState \<Rightarrow> loopState" where
  "biweeklyLoop biweeklyPayment annualRate' maxPayments start opts lumpSumDateObj s =
     (if st_balance s > 0.01 \<and> st_paymentNumber s < maxPayments * 2
      then
        (let s' = biweeklyBody biweeklyPayment annualRate' start opts lumpSumDateObj s
         in if st_balance s' \<le> 0.01 then s'
            else biweeklyLoop biweeklyPayment annualRate' maxPayments start opts lumpSumDateObj s')
      else s)"
  by pat_completeness auto
termination
  by (relation "measure (\<lambda>(bp, r, m, start, opts, l, s). m * 2 - st_paymentNumber s)")
     (auto simp: biweeklyBody_def Let_def)

declare biweeklyLoop.simps [simp del]

definition monthlyBody ::
  "real \<Rightarrow> real \<Rightarrow> jsdate \<Rightarrow> accelerationOptions \<Rightarrow> jsdate option \<Rightarrow> loopState \<Rightarrow> loopState" where
  "monthlyBody baseMonthlyPayment monthlyRate start opts lumpSumDateObj s =
     (let pn = st_paymentNumber s + 1;
          paymentDate = setMonth start (getMonth start + pn - 1);
          interestPayment = st_balance s * monthlyRate;
          extra1 = (if extraMonthly opts > 0 then extraMonthly opts else 0);
          lumpFires = (\<not> st_lumpSumApplied s \<and>
            (case lumpSumDateObj of None \<Rightarrow> False
             | Some l \<Rightarrow> getFullYear paymentDate * 12 + getMonth paymentDate
                         \<ge> getFullYear l * 12 + getMonth l));
          extra2 = (if lumpFires then extra1 + lumpSum opts else extra1);
          extra = (if annualExtra opts > 0 \<and> getMonth paymentDate = annualExtraMonth opts
                   then extra2 + annualExtra opts else extra2);
          principalPayment0 = baseMonthlyPayment - interestPayment + extra;
          principalPayment = (if principalPayment0 > st_balance s then st_balance s else principalPayment0);
          actualPayment = (if baseMonthlyPayment - extra > st_balance s + interestPayment
                           then st_balance s + interestPayment else baseMonthlyPayment);
          bal = st_balance s - principalPayment;
          cum = st_cumulativeInterest s + interestPayment
      in \<lparr>st_balance = bal,
          st_cumulativeInterest = cum,
          st_paymentNumber = pn,
          st_dayCounter = st_dayCounter s,
          st_lumpSumApplied = (if lumpFires then True else st_lumpSumApplied s),
          st_schedule = st_schedule s @
            [\<lparr>paymentNumber = pn, date = formatDate paymentDate, dateObj = paymentDate,
              payment = actualPayment, principalPart = principalPayment - extra,
              interest = interestPayment, extraPayment = extra, balance = max 0 bal,
              cumulativeInterest = cum\<rparr>]\<rparr>)"

function monthlyLoop ::
  "real \<Rightarrow> real \<Rightarrow> nat \<Rightarrow> jsdate \<Rightarrow> accelerationOptions \<Rightarrow> jsdate option \<Rightarrow> loopState \<Rightarrow> loopState" where
  "monthlyLoop baseMonthlyPayment monthlyRate maxPayments start opts lumpSumDateObj s =
     (if st_balance s > 0.01 \<and> st_paymentNumber s < maxPayments
      then
        (let s' = monthlyBody baseMonthlyPayment monthlyRate start opts lumpSumDateObj s
         in if st_balance s' \<le> 0.01 then s'
            else monthlyLoop baseMonthlyPayment monthlyRate maxPayments start opts lumpSumDateObj s')
      else s)"
  by pat_completeness auto
termination
proof (relation "measure (\<lambda>(bp, r, m, start, opts, l, s). m - st_paymentNumber s)", goal_cases)
  case 1
  show ?case by simp
next
  case (2 bp r m start opts l s x)
  from 2(1) have "st_paymentNumber s < m" by simp
  moreover from 2(2) have "st_paymentNumber x = st_paymentNumber s + 1"
    by (simp add: monthlyBody_def Let_def)
  ultimately show ?case by simp
qed

declare monthlyLoop.simps [simp del]

definition acceleratedFinalState :: "loanData \<Rightarrow> accelerationOptions \<Rightarrow> loopState" where
  "acceleratedFinalState loan opts =
     (let baseMonthlyPayment =
            num (calculateMonthlyPayment (principal' loan) (annualRate loan) (termYears loan));
          monthlyRate = annualRate loan / 100 / 12;
          start = parseDate (startDate loan);
          maxPayments = termYears loan * 12 * 2
      in if biweekly opts
         then biweeklyLoop (baseMonthlyPayment / 2) (annualRate loan) maxPayments start opts
                (lumpSumDateObjOf opts) (initialState (principal' loan))
         else monthlyLoop baseMonthlyPayment monthlyRate maxPayments start opts
                (lumpSumDateObjOf opts) (initialState (principal' loan)))"

definition generateAcceleratedSchedule :: "loanData \<Rightarrow> accelerationOptions \<Rightarrow> scheduleResult" where
  "generateAcceleratedSchedule loan opts =
     resultOf (calculateMonthlyPayment (principal' loan) (annualRate loan) (termYears loan))
       (parseDate (startDate loan)) (acceleratedFinalState loan opts)"

section \<open>Savings\<close>

record savings =
  monthsSaved :: int
  yearsSaved :: int
  remainingMonths :: int
  timeSavedText :: string
  interestSaved :: real
  originalInterest :: real
  acceleratedInterest :: real

text \<open>\<open>Math.round\<close> rounds to the nearest integer, a half upwards.\<close>

definition mathRound :: "real \<Rightarrow> int" where
  "mathRound x = \<lfloor>x + 1 / 2\<rfloor>"

text \<open>The remainder operator \<open>%\<close> on integers: the result has the sign of the dividend.\<close>

definition jsRemainder :: "int \<Rightarrow> int \<Rightarrow> int" where
  "jsRemainder a b = (if a < 0 then - ((- a) mod \<bar>b\<bar>) else a mod \<bar>b\<bar>)"

fun decimal :: "nat \<Rightarrow> string" where
  "decimal n =
     (if n < 10 then [''0123456789'' ! n]
      else decimal (n div 10) @ [''0123456789'' ! (n mod 10)])"

declare decimal.simps [simp del]

definition calculateSavings :: "scheduleResult \<Rightarrow> scheduleResult \<Rightarrow> savings" where
  "calculateSavings originalResult acceleratedResult =
     (let originalDate = parseDate (payoffDate originalResult);
          acceleratedDate = parseDate (payoffDate acceleratedResult);
          timeDiff = getTime originalDate - getTime acceleratedDate;
          months = mathRound (real_of_int timeDiff / (1000 * 60 * 60 * 24 * 30.44));
          years = \<lfloor>real_of_int months / 12\<rfloor>;
          remaining = jsRemainder months 12;
          txt =
            (if years > 0 then
               decimal (nat years) @ '' year'' @ (if years \<noteq> 1 then ''s'' else []) @
               (if remaining > 0
                then '', '' @ decimal (nat remaining) @ '' month'' @
                     (if remaining \<noteq> 1 then ''s'' else [])
                else [])
             else if remaining > 0 then
               decimal (nat remaining) @ '' month'' @ (if remaining \<noteq> 1 then ''s'' else [])
             else ''No time saved'')
      in \<lparr>monthsSaved = months,
          yearsSaved = years,
          remainingMonths = remaining,
          timeSavedText = txt,
          interestSaved = totalInterest originalResult - totalInterest acceleratedResult,
          originalInterest = totalInterest originalResult,
          acceleratedInterest = totalInterest acceleratedResult\<rparr>)"

section \<open>Notions used by the properties\<close>


text \<open>
  The balance a fully amortizing loan has left after \<open>k\<close> of its \<open>n\<close> payments, and
  its level payment, for the monthly rate \<open>r\<close>.
\<close>

definition closedBalance :: "real \<Rightarrow> real \<Rightarrow> nat \<Rightarrow> nat \<Rightarrow> real" where
  "closedBalance p r n k =
     (if r = 0 then p * (real n - real k) / real n
      else p * ((1 + r) ^ n - (1 + r) ^ k) / ((1 + r) ^ n - 1))"

definition annuity :: "real \<Rightarrow> real \<Rightarrow> nat \<Rightarrow> real" where
  "annuity p r n = (if r = 0 then p / real n else p * (r * (1 + r) ^ n) / ((1 + r) ^ n - 1))"

text \<open>
  The state of the standard loop after \<open>st_paymentNumber\<close> payments of an amortizing loan:
  the balance follows \<open>closedBalance\<close>, the principal parts recorded so far add up to what
  has been repaid, and the last record shows the balance.
\<close>

definition amortizing :: "real \<Rightarrow> real \<Rightarrow> nat \<Rightarrow> loopState \<Rightarrow> bool" where
  "amortizing p r n s =
     (st_paymentNumber s \<le> n \<and>
      st_balance s = closedBalance p r n (st_paymentNumber s) \<and>
      sum_list (map principalPart (st_schedule s)) = p - st_balance s \<and>
      length (st_schedule s) = st_paymentNumber s \<and>
      (st_schedule s = [] \<or> balance (last (st_schedule s)) = st_balance s))"

text \<open>
  A loop has ended at its iteration ceiling with the balance still above \<open>0.01\<close>.
\<close>

definition originalCeilingHit :: "loanData \<Rightarrow> bool" where
  "originalCeilingHit loan =
     (st_balance (originalFinalState loan) > 0.01 \<and>
      termYears loan * 12 \<le> st_paymentNumber (originalFinalState loan))"





definition noAcceleration :: accelerationOptions where
  "noAcceleration =
     \<lparr>extraMonthly = 0, biweekly = False, lumpSum = 0, lumpSumDate = None, annualExtra = 0,
      annualExtraMonth = 11\<rparr>"

definition yearLoan :: loanData where
  "yearLoan = \<lparr>principal' = 1200, annualRate = 0, termYears = 1, startDate = (2024, 1)\<rparr>"

definition extra150 :: accelerationOptions where
  "extra150 = noAcceleration\<lparr>extraMonthly := 150\<rparr>"

definition biweeklyExtra434 :: accelerationOptions where
  "biweeklyExtra434 = noAcceleration\<lparr>extraMonthly := 434, biweekly := True\<rparr>"

text \<open>
  The extra amount the monthly loop applies in the period that follows the state \<open>s\<close>,
  and the relation between two runs of that loop of which the second never owes more nor
  has paid more interest.
\<close>

definition monthlyExtraAt :: "jsdate \<Rightarrow> accelerationOptions \<Rightarrow> jsdate option \<Rightarrow> loopState \<Rightarrow> real" where
  "monthlyExtraAt start opts lumpSumDateObj s =
     (let paymentDate = setMonth start (getMonth start + (st_paymentNumber s + 1) - 1)
      in (if extraMonthly opts > 0 then extraMonthly opts else 0) +
         (if \<not> st_lumpSumApplied s \<and>
             (case lumpSumDateObj of None \<Rightarrow> False
              | Some l \<Rightarrow> getFullYear paymentDate * 12 + getMonth paymentDate
                          \<ge> getFullYear l * 12 + getMonth l)
          then lumpSum opts else 0) +
         (if annualExtra opts > 0 \<and> getMonth paymentDate = annualExtraMonth opts
          then annualExtra opts else 0))"

definition dominates :: "loopState \<Rightarrow> loopState \<Rightarrow> bool" where
  "dominates s1 s2 =
     (st_paymentNumber s2 = st_paymentNumber s1 \<and>
      st_lumpSumApplied s2 = st_lumpSumApplied s1 \<and>
      st_balance s2 \<le> st_balance s1 \<and>
      st_cumulativeInterest s2 \<le> st_cumulativeInterest s1)"

















section \<open>Reasoning about the loops\<close>

subsection \<open>originalLoop\<close>

lemma originalBody_paymentNumber:
  "st_paymentNumber (originalBody mp r start s) = st_paymentNumber s + 1"
  by (simp add: originalBody_def Let_def)

lemma originalBody_length:
  "length (st_schedule (originalBody mp r start s)) = length (st_schedule s) + 1"
  by (simp add: originalBody_def Let_def)

lemma originalLoop_stop:
  "\<not> (st_balance s > 0.01 \<and> st_paymentNumber s < n) \<Longrightarrow> originalLoop mp r n start s = s"
  by (subst originalLoop.simps) auto

lemma originalLoop_unfold:
  "originalLoop mp r n start s =
     (if st_balance s > 0.01 \<and> st_paymentNumber s < n
      then originalLoop mp r n start (originalBody mp r start s)
      else s)"
  by (subst originalLoop.simps) simp

lemma originalLoop_induct_rule:
  assumes "\<And>s. (st_balance s > 0.01 \<Longrightarrow> st_paymentNumber s < n \<Longrightarrow>
              P (originalBody mp r start s)) \<Longrightarrow> P s"
  shows "P s"
proof (induction "n - st_paymentNumber s" arbitrary: s rule: less_induct)
  case less
  show ?case
  proof (rule assms)
    assume "st_balance s > 0.01" and lt: "st_paymentNumber s < n"
    show "P (originalBody mp r start s)"
      by (rule less) (use lt in \<open>simp add: originalBody_paymentNumber\<close>)
  qed
qed

lemma originalLoop_invariant:
  assumes "I s"
    and "\<And>t. I t \<Longrightarrow> st_balance t > 0.01 \<Longrightarrow> st_paymentNumber t < n \<Longrightarrow>
           I (originalBody mp r start t)"
  shows "I (originalLoop mp r n start s)"
  using assms(1)
proof (induction s rule: originalLoop_induct_rule[where n = n and mp = mp and r = r and start = start])
  case (1 s)
  show ?case
  proof (cases "st_balance s > 0.01 \<and> st_paymentNumber s < n")
    case False
    with 1(2) show ?thesis by (simp add: originalLoop_stop)
  next
    case True
    then have "I (originalBody mp r start s)" using assms(2) 1(2) by blast
    with 1(1) True have "I (originalLoop mp r n start (originalBody mp r start s))"
      by blast
    with True show ?thesis by (subst originalLoop_unfold) simp
  qed
qed

lemma originalLoop_exit:
  "st_balance (originalLoop mp r n start s) \<le> 0.01 \<or>
   n \<le> st_paymentNumber (originalLoop mp r n start s)"
proof (induction s rule: originalLoop_induct_rule[where n = n and mp = mp and r = r and start = start])
  case (1 s)
  show ?case
  proof (cases "st_balance s > 0.01 \<and> st_paymentNumber s < n")
    case False
    then show ?thesis by (auto simp: originalLoop_stop)
  next
    case True
    with 1 show ?thesis by (subst (1 2) originalLoop_unfold) simp
  qed
qed

lemma originalLoop_count:
  assumes "length (st_schedule s) = st_paymentNumber s" and "st_paymentNumber s \<le> n"
  shows "length (st_schedule (originalLoop mp r n start s)) =
           st_paymentNumber (originalLoop mp r n start s) \<and>
         st_paymentNumber (originalLoop mp r n start s) \<le> n"
  by (rule originalLoop_invariant[where I = "\<lambda>t. length (st_schedule t) = st_paymentNumber t \<and> st_paymentNumber t \<le> n"])
     (use assms in \<open>auto simp: originalBody_paymentNumber originalBody_length\<close>)

subsection \<open>monthlyLoop\<close>

lemma monthlyBody_paymentNumber:
  "st_paymentNumber (monthlyBody bp r start opts l s) = st_paymentNumber s + 1"
  by (simp add: monthlyBody_def Let_def)

lemma monthlyBody_length:
  "length (st_schedule (monthlyBody bp r start opts l s)) = length (st_schedule s) + 1"
  by (simp add: monthlyBody_def Let_def)

lemma monthlyLoop_stop:
  "\<not> (st_balance s > 0.01 \<and> st_paymentNumber s < cap) \<Longrightarrow> monthlyLoop bp r cap start opts l s = s"
  by (subst monthlyLoop.simps) auto

lemma monthlyLoop_unfold:
  "monthlyLoop bp r cap start opts l s =
     (if st_balance s > 0.01 \<and> st_paymentNumber s < cap
      then monthlyLoop bp r cap start opts l (monthlyBody bp r start opts l s)
      else s)"
proof (cases "st_balance s > 0.01 \<and> st_paymentNumber s < cap")
  case False
  then show ?thesis by (auto simp: monthlyLoop_stop)
next
  case True
  let ?s' = "monthlyBody bp r start opts l s"
  have step: "monthlyLoop bp r cap start opts l s =
      (if st_balance ?s' \<le> 0.01 then ?s' else monthlyLoop bp r cap start opts l ?s')"
    using True by (subst monthlyLoop.simps) (simp add: Let_def)
  show ?thesis
  proof (cases "st_balance ?s' \<le> 0.01")
    case stop: True
    then have "monthlyLoop bp r cap start opts l ?s' = ?s'"
      by (intro monthlyLoop_stop) simp
    with step stop True show ?thesis by simp
  next
    case False
    with step True show ?thesis by simp
  qed
qed

lemma monthlyLoop_induct_rule:
  assumes "\<And>s. (st_balance s > 0.01 \<Longrightarrow> st_paymentNumber s < cap \<Longrightarrow>
              P (monthlyBody bp r start opts l s)) \<Longrightarrow> P s"
  shows "P s"
proof (induction "cap - st_paymentNumber s" arbitrary: s rule: less_induct)
  case less
  show ?case
  proof (rule assms)
    assume "st_balance s > 0.01" and lt: "st_paymentNumber s < cap"
    show "P (monthlyBody bp r start opts l s)"
      by (rule less) (use lt in \<open>simp add: monthlyBody_paymentNumber\<close>)
  qed
qed

lemma monthlyLoop_invariant:
  assumes "I s"
    and "\<And>t. I t \<Longrightarrow> st_balance t > 0.01 \<Longrightarrow> st_paymentNumber t < cap \<Longrightarrow>
           I (monthlyBody bp r start opts l t)"
  shows "I (monthlyLoop bp r cap start opts l s)"
  using assms(1)
proof (induction s rule: monthlyLoop_induct_rule[where cap = cap and bp = bp and r = r and start = start and opts = opts and l = l])
  case (1 s)
  show ?case
  proof (cases "st_balance s > 0.01 \<and> st_paymentNumber s < cap")
    case False
    with 1(2) show ?thesis by (simp add: monthlyLoop_stop)
  next
    case True
    then have "I (monthlyBody bp r start opts l s)" using assms(2) 1(2) by blast
    with 1(1) True have "I (monthlyLoop bp r cap start opts l (monthlyBody bp r start opts l s))"
      by blast
    with True show ?thesis by (subst monthlyLoop_unfold) simp
  qed
qed

lemma monthlyLoop_exit:
  "st_balance (monthlyLoop bp r cap start opts l s) \<le> 0.01 \<or>
   cap \<le> st_paymentNumber (monthlyLoop bp r cap start opts l s)"
proof (induction s rule: monthlyLoop_induct_rule[where cap = cap and bp = bp and r = r and start = start and opts = opts and l = l])
  case (1 s)
  show ?case
  proof (cases "st_balance s > 0.01 \<and> st_paymentNumber s < cap")
    case False
    then show ?thesis by (auto simp: monthlyLoop_stop)
  next
    case True
    with 1 show ?thesis by (subst (1 2) monthlyLoop_unfold) simp
  qed
qed

lemma monthlyLoop_count:
  assumes "length (st_schedule s) = st_paymentNumber s" and "st_paymentNumber s \<le> cap"
  shows "length (st_schedule (monthlyLoop bp r cap start opts l s)) =
           st_paymentNumber (monthlyLoop bp r cap start opts l s) \<and>
         st_paymentNumber (monthlyLoop bp r cap start opts l s) \<le> cap"
  by (rule monthlyLoop_invariant[where I = "\<lambda>t. length (st_schedule t) = st_paymentNumber t \<and> st_paymentNumber t \<le> cap"])
     (use assms in \<open>auto simp: monthlyBody_paymentNumber monthlyBody_length\<close>)

subsection \<open>biweeklyLoop\<close>

lemma biweeklyBody_paymentNumber:
  "st_paymentNumber (biweeklyBody bp r start opts l s) = st_paymentNumber s + 1"
  by (simp add: biweeklyBody_def Let_def)

lemma biweeklyBody_length:
  "length (st_schedule (biweeklyBody bp r start opts l s)) = length (st_schedule s) + 1"
  by (simp add: biweeklyBody_def Let_def)

lemma biweeklyLoop_stop:
  "\<not> (st_balance s > 0.01 \<and> st_paymentNumber s < cap * 2) \<Longrightarrow> biweeklyLoop bp r cap start opts l s = s"
  by (subst biweeklyLoop.simps) auto

lemma biweeklyLoop_unfold:
  "biweeklyLoop bp r cap start opts l s =
     (if st_balance s > 0.01 \<and> st_paymentNumber s < cap * 2
      then biweeklyLoop bp r cap start opts l (biweeklyBody bp r start opts l s)
      else s)"
proof (cases "st_balance s > 0.01 \<and> st_paymentNumber s < cap * 2")
  case False
  then show ?thesis by (auto simp: biweeklyLoop_stop)
next
  case True
  let ?s' = "biweeklyBody bp r start opts l s"
  have step: "biweeklyLoop bp r cap start opts l s =
      (if st_balance ?s' \<le> 0.01 then ?s' else biweeklyLoop bp r cap start opts l ?s')"
    using True by (subst biweeklyLoop.simps) (simp add: Let_def)
  show ?thesis
  proof (cases "st_balance ?s' \<le> 0.01")
    case stop: True
    then have "biweeklyLoop bp r cap start opts l ?s' = ?s'"
      by (intro biweeklyLoop_stop) simp
    with step stop True show ?thesis by simp
  next
    case False
    with step True show ?thesis by simp
  qed
qed

lemma biweeklyLoop_induct_rule:
  assumes "\<And>s. (st_balance s > 0.01 \<Longrightarrow> st_paymentNumber s < cap * 2 \<Longrightarrow>
              P (biweeklyBody bp r start opts l s)) \<Longrightarrow> P s"
  shows "P s"
proof (induction "cap * 2 - st_paymentNumber s" arbitrary: s rule: less_induct)
  case less
  show ?case
  proof (rule assms)
    assume "st_balance s > 0.01" and lt: "st_paymentNumber s < cap * 2"
    show "P (biweeklyBody bp r start opts l s)"
      by (rule less) (use lt in \<open>simp add: biweeklyBody_paymentNumber\<close>)
  qed
qed

lemma biweeklyLoop_invariant:
  assumes "I s"
    and "\<And>t. I t \<Longrightarrow> st_balance t > 0.01 \<Longrightarrow> st_paymentNumber t < cap * 2 \<Longrightarrow>
           I (biweeklyBody bp r start opts l t)"
  shows "I (biweeklyLoop bp r cap start opts l s)"
  using assms(1)
proof (induction s rule: biweeklyLoop_induct_rule[where cap = cap and bp = bp and r = r and start = start and opts = opts and l = l])
  case (1 s)
  show ?case
  proof (cases "st_balance s > 0.01 \<and> st_paymentNumber s < cap * 2")
    case False
    with 1(2) show ?thesis by (simp add: biweeklyLoop_stop)
  next
    case True
    then have "I (biweeklyBody bp r start opts l s)" using assms(2) 1(2) by blast
    with 1(1) True have "I (biweeklyLoop bp r cap start opts l (biweeklyBody bp r start opts l s))"
      by blast
    with True show ?thesis by (subst biweeklyLoop_unfold) simp
  qed
qed

lemma biweeklyLoop_exit:
  "st_balance (biweeklyLoop bp r cap start opts l s) \<le> 0.01 \<or>
   cap * 2 \<le> st_paymentNumber (biweeklyLoop bp r cap start opts l s)"
proof (induction s rule: biweeklyLoop_induct_rule[where cap = cap and bp = bp and r = r and start = start and opts = opts and l = l])
  case (1 s)
  show ?case
  proof (cases "st_balance s > 0.01 \<and> st_paymentNumber s < cap * 2")
    case False
    then show ?thesis by (auto simp: biweeklyLoop_stop)
  next
    case True
    with 1 show ?thesis by (subst (1 2) biweeklyLoop_unfold) simp
  qed
qed

lemma biweeklyLoop_count:
  assumes "length (st_schedule s) = st_paymentNumber s" and "st_paymentNumber s \<le> cap * 2"
  shows "length (st_schedule (biweeklyLoop bp r cap start opts l s)) =
           st_paymentNumber (biweeklyLoop bp r cap start opts l s) \<and>
         st_paymentNumber (biweeklyLoop bp r cap start opts l s) \<le> cap * 2"
  by (rule biweeklyLoop_invariant[where I = "\<lambda>t. length (st_schedule t) = st_paymentNumber t \<and> st_paymentNumber t \<le> cap * 2"])
     (use assms in \<open>auto simp: biweeklyBody_paymentNumber biweeklyBody_length\<close>)

section \<open>Amortization of the standard loan\<close>

lemma growth_gt_one:
  fixes r :: real
  assumes "0 < r" and "0 < n"
  shows "1 < (1 + r) ^ n"
  using assms by simp

lemma num_calculateMonthlyPayment:
  assumes "0 \<le> rate" and "0 < T"
  shows "num (calculateMonthlyPayment p rate T) = annuity p (rate / 100 / 12) (T * 12)"
proof (cases "rate = 0")
  case True
  with assms show ?thesis
    by (simp add: calculateMonthlyPayment_def annuity_def js_div_def)
next
  case False
  with assms have "0 < rate / 100 / 12" by simp
  then have "1 < (1 + rate / 100 / 12) ^ (T * 12)"
    using assms(2) by (intro growth_gt_one) simp_all
  with False show ?thesis
    by (simp add: calculateMonthlyPayment_def annuity_def js_div_def Let_def)
qed

lemma closedBalance_start:
  assumes "0 \<le> r" and "0 < n"
  shows "closedBalance p r n 0 = p"
proof (cases "r = 0")
  case True
  with assms show ?thesis by (simp add: closedBalance_def)
next
  case False
  with assms have "1 < (1 + r) ^ n" by (intro growth_gt_one) simp_all
  with False show ?thesis by (simp add: closedBalance_def)
qed

lemma closedBalance_end: "closedBalance p r n n = 0"
  by (simp add: closedBalance_def)

lemma closedBalance_nonneg:
  assumes "0 \<le> p" and "0 \<le> r" and "k \<le> n"
  shows "0 \<le> closedBalance p r n k"
proof (cases "r = 0")
  case True
  with assms show ?thesis by (simp add: closedBalance_def)
next
  case False
  with assms have r: "0 < r" by simp
  show ?thesis
  proof (cases "k = n")
    case True
    then show ?thesis by (simp add: closedBalance_def)
  next
    case False
    with assms have "0 < n" by simp
    with r have gt: "1 < (1 + r) ^ n" by (intro growth_gt_one)
    have "(1 + r) ^ k \<le> (1 + r) ^ n"
      using r assms(3) by (intro power_increasing) simp_all
    with gt assms(1) r show ?thesis
      by (simp add: closedBalance_def)
  qed
qed

lemma closedBalance_step:
  assumes "0 \<le> r" and "k < n"
  shows "closedBalance p r n k * (1 + r) - annuity p r n = closedBalance p r n (Suc k)"
proof (cases "r = 0")
  case True
  with assms show ?thesis
    by (simp add: closedBalance_def annuity_def field_simps)
next
  case False
  with assms have "1 < (1 + r) ^ n" by (intro growth_gt_one) simp_all
  then have nz: "(1 + r) ^ n - 1 \<noteq> 0" by simp
  have "closedBalance p r n k * (1 + r) - annuity p r n =
        (p * ((1 + r) ^ n - (1 + r) ^ k) * (1 + r) - p * (r * (1 + r) ^ n)) / ((1 + r) ^ n - 1)"
    using False by (simp add: closedBalance_def annuity_def diff_divide_distrib)
  also have "p * ((1 + r) ^ n - (1 + r) ^ k) * (1 + r) - p * (r * (1 + r) ^ n) =
        p * ((1 + r) ^ n - (1 + r) ^ Suc k)"
    by (simp add: algebra_simps)
  finally show ?thesis using False by (simp add: closedBalance_def)
qed

lemma amortizing_initial:
  assumes "0 \<le> r" and "0 < n"
  shows "amortizing p r n (initialState p)"
  using assms by (simp add: amortizing_def initialState_def closedBalance_start)

lemma amortizing_originalBody:
  assumes "0 \<le> p" and "0 \<le> r" and "amortizing p r n s" and "st_paymentNumber s < n"
  shows "amortizing p r n (originalBody (annuity p r n) r start s)"
proof -
  let ?k = "st_paymentNumber s"
  let ?B = "st_balance s"
  have B: "?B = closedBalance p r n ?k" using assms(3) by (simp add: amortizing_def)
  have step: "?B * (1 + r) - annuity p r n = closedBalance p r n (Suc ?k)"
    unfolding B using assms(2,4) by (rule closedBalance_step)
  have nonneg: "0 \<le> closedBalance p r n (Suc ?k)"
    using assms(1,2,4) by (intro closedBalance_nonneg) simp_all
  have nocap: "\<not> (annuity p r n - ?B * r > ?B)"
    using step nonneg by (simp add: algebra_simps)
  have bal: "?B - (annuity p r n - ?B * r) = closedBalance p r n (Suc ?k)"
    using step by (simp add: algebra_simps)
  show ?thesis
    using assms(3,4) nocap nonneg bal
    by (simp add: amortizing_def originalBody_def Let_def)
qed

lemma amortizing_final_balance:
  assumes "0 \<le> p" and "0 \<le> r" and "amortizing p r n s"
    and "st_balance s \<le> 0.01 \<or> n \<le> st_paymentNumber s"
  shows "0 \<le> st_balance s \<and> st_balance s \<le> 0.01"
proof -
  have le: "st_paymentNumber s \<le> n" and B: "st_balance s = closedBalance p r n (st_paymentNumber s)"
    using assms(3) by (simp_all add: amortizing_def)
  have "0 \<le> st_balance s" unfolding B using assms(1,2) le by (rule closedBalance_nonneg)
  moreover have "st_balance s \<le> 0.01"
  proof (cases "st_balance s \<le> 0.01")
    case True
    then show ?thesis .
  next
    case False
    with assms(4) le have "st_paymentNumber s = n" by simp
    with B show ?thesis by (simp add: closedBalance_end)
  qed
  ultimately show ?thesis ..
qed

lemma originalFinalState_amortizing:
  assumes "0 \<le> principal' loan" and "0 \<le> annualRate loan" and "0 < termYears loan"
  shows "amortizing (principal' loan) (annualRate loan / 100 / 12) (termYears loan * 12)
           (originalFinalState loan)"
  unfolding originalFinalState_def num_calculateMonthlyPayment[OF assms(2,3)]
proof (rule originalLoop_invariant)
  show "amortizing (principal' loan) (annualRate loan / 100 / 12) (termYears loan * 12)
          (initialState (principal' loan))"
    using assms by (intro amortizing_initial) simp_all
next
  fix t
  assume "amortizing (principal' loan) (annualRate loan / 100 / 12) (termYears loan * 12) t"
    and "st_paymentNumber t < termYears loan * 12"
  then show "amortizing (principal' loan) (annualRate loan / 100 / 12) (termYears loan * 12)
          (originalBody (annuity (principal' loan) (annualRate loan / 100 / 12) (termYears loan * 12))
             (annualRate loan / 100 / 12) (parseDate (startDate loan)) t)"
    using assms by (intro amortizing_originalBody) simp_all
qed

section \<open>The calendar\<close>









lemma daysInMonth_pos: "0 < daysInMonth y m"
  by (simp add: daysInMonth_def)






section \<open>Evaluating schedules\<close>

text \<open>The equations that compute a schedule at a given input.\<close>

lemmas schedule_eval =
  generateOriginalSchedule_def originalFinalState_def resultOf_def
  calculateMonthlyPayment_def js_div_def initialState_def parseDate_def formatDate_def
  originalLoop.simps originalBody_def setMonth_def normalizeDate.simps daysInMonth_def
  isLeapYear_def Let_def
  generateAcceleratedSchedule_def acceleratedFinalState_def monthlyLoop.simps monthlyBody_def
  biweeklyLoop.simps biweeklyBody_def lumpSumDateObjOf_def setDate_def getTime_def dayNumber_def
  daysBeforeYear_def daysBeforeMonth_def
  yearLoan_def noAcceleration_def

lemma yearLoan_original_payoff:
  "payoffDate (generateOriginalSchedule yearLoan) = (2024, 12)"
  by (simp add: schedule_eval)

lemma yearLoan_extra150_payoff:
  "payoffDate (generateAcceleratedSchedule yearLoan extra150) = (2024, 5)"
  by (simp add: schedule_eval extra150_def)

section \<open>The records of the accelerated loops\<close>
















section \<open>Reaching the iteration ceiling\<close>










text \<open>
  Over exact arithmetic a loan with a rate of at least zero and a term of at least one year
  never ends the standard loop above \<open>0.01\<close>: only a term of zero years does.
\<close>

lemma standard_loan_not_exhausted:
  assumes "0 \<le> principal' loan" and "0 \<le> annualRate loan" and "0 < termYears loan"
  shows "\<not> originalCeilingHit loan"
proof -
  let ?s = "originalFinalState loan"
  have am: "amortizing (principal' loan) (annualRate loan / 100 / 12) (termYears loan * 12) ?s"
    using assms by (rule originalFinalState_amortizing)
  have ex: "st_balance ?s \<le> 0.01 \<or> termYears loan * 12 \<le> st_paymentNumber ?s"
    unfolding originalFinalState_def by (rule originalLoop_exit)
  have "0 \<le> st_balance ?s \<and> st_balance ?s \<le> 0.01"
    using assms(1,2) am ex by (intro amortizing_final_balance[where p = "principal' loan"]) simp_all
  then show ?thesis by (simp add: originalCeilingHit_def)
qed





section \<open>The standard schedule repays the principal\<close>



section \<open>The monthly payment formula\<close>



section \<open>Payment, principal and interest of a record\<close>

text \<open>
  Claim C4 at two inputs (a 1200 loan at rate zero over one year, from 2024-01). With
  150 extra each month, the fifth and last record (balance 200 before it) has payment 100,
  principal 50 and interest 0. In bi-weekly mode with an extra monthly amount of 434, the
  last record has payment 200, principal 0 and interest 0. In both, the payment is not the
  principal plus the interest.
\<close>

theorem truncated_record_payment_mismatch:
  "payment (last (schedule (generateAcceleratedSchedule yearLoan extra150))) = 100 \<and>
   principalPart (last (schedule (generateAcceleratedSchedule yearLoan extra150))) = 50 \<and>
   interest (last (schedule (generateAcceleratedSchedule yearLoan extra150))) = 0 \<and>
   extraPayment (last (schedule (generateAcceleratedSchedule yearLoan extra150))) = 150 \<and>
   payment (last (schedule (generateAcceleratedSchedule yearLoan biweeklyExtra434))) = 200 \<and>
   principalPart (last (schedule (generateAcceleratedSchedule yearLoan biweeklyExtra434))) = 0 \<and>
   interest (last (schedule (generateAcceleratedSchedule yearLoan biweeklyExtra434))) = 0 \<and>
   extraPayment (last (schedule (generateAcceleratedSchedule yearLoan biweeklyExtra434))) = 200"
  by (simp add: schedule_eval extra150_def biweeklyExtra434_def)

section \<open>The lump sum\<close>


















section \<open>A larger extra monthly amount\<close>

lemma monthlyBody_extraPayment:
  "extraPayment (last (st_schedule (monthlyBody bp r start opts l s))) =
     monthlyExtraAt start opts l s"
  by (simp add: monthlyBody_def monthlyExtraAt_def Let_def split: option.splits)

lemma monthlyBody_balance_extra:
  "st_balance (monthlyBody bp r start opts l s) =
     st_balance s -
       (if bp - st_balance s * r + extraPayment (last (st_schedule (monthlyBody bp r start opts l s)))
             > st_balance s
        then st_balance s
        else bp - st_balance s * r +
             extraPayment (last (st_schedule (monthlyBody bp r start opts l s))))"
  by (simp add: monthlyBody_def Let_def)

lemma monthlyBody_balance:
  "st_balance (monthlyBody bp r start opts l s) =
     max 0 (st_balance s * (1 + r) - bp - monthlyExtraAt start opts l s)"
  unfolding monthlyBody_balance_extra[of bp r start opts l s] monthlyBody_extraPayment
  by (simp add: max_def algebra_simps)

lemma monthlyBody_cumulativeInterest:
  "st_cumulativeInterest (monthlyBody bp r start opts l s) =
     st_cumulativeInterest s + st_balance s * r"
  by (simp add: monthlyBody_def Let_def)

lemma monthlyBody_lumpSumApplied:
  "st_lumpSumApplied (monthlyBody bp r start (opts\<lparr>extraMonthly := e\<rparr>) l s) =
   st_lumpSumApplied (monthlyBody bp r start opts l s)"
  by (simp add: monthlyBody_def Let_def)

lemma monthlyExtraAt_mono:
  assumes "e1 \<le> e2" and "st_paymentNumber s2 = st_paymentNumber s1"
    and "st_lumpSumApplied s2 = st_lumpSumApplied s1"
  shows "monthlyExtraAt start (opts\<lparr>extraMonthly := e1\<rparr>) l s1
         \<le> monthlyExtraAt start (opts\<lparr>extraMonthly := e2\<rparr>) l s2"
  using assms by (simp add: monthlyExtraAt_def Let_def)

lemma monthlyBody_dominates:
  assumes "0 \<le> r" and "e1 \<le> e2" and "dominates s1 s2"
  shows "dominates (monthlyBody bp r start (opts\<lparr>extraMonthly := e1\<rparr>) l s1)
           (monthlyBody bp r start (opts\<lparr>extraMonthly := e2\<rparr>) l s2)"
proof -
  from assms(3) have pn: "st_paymentNumber s2 = st_paymentNumber s1"
    and ap: "st_lumpSumApplied s2 = st_lumpSumApplied s1"
    and b: "st_balance s2 \<le> st_balance s1"
    and c: "st_cumulativeInterest s2 \<le> st_cumulativeInterest s1"
    by (simp_all add: dominates_def)
  have x: "monthlyExtraAt start (opts\<lparr>extraMonthly := e1\<rparr>) l s1
         \<le> monthlyExtraAt start (opts\<lparr>extraMonthly := e2\<rparr>) l s2"
    using assms(2) pn ap by (rule monthlyExtraAt_mono)
  have "st_balance s2 * (1 + r) \<le> st_balance s1 * (1 + r)"
    using b assms(1) by (intro mult_right_mono) simp_all
  with x have bal: "st_balance (monthlyBody bp r start (opts\<lparr>extraMonthly := e2\<rparr>) l s2)
      \<le> st_balance (monthlyBody bp r start (opts\<lparr>extraMonthly := e1\<rparr>) l s1)"
    unfolding monthlyBody_balance by (simp add: max_def)
  have "st_balance s2 * r \<le> st_balance s1 * r"
    using b assms(1) by (intro mult_right_mono) simp_all
  with c have cum: "st_cumulativeInterest (monthlyBody bp r start (opts\<lparr>extraMonthly := e2\<rparr>) l s2)
      \<le> st_cumulativeInterest (monthlyBody bp r start (opts\<lparr>extraMonthly := e1\<rparr>) l s1)"
    unfolding monthlyBody_cumulativeInterest by simp
  have "st_lumpSumApplied (monthlyBody bp r start (opts\<lparr>extraMonthly := e2\<rparr>) l s2) =
        st_lumpSumApplied (monthlyBody bp r start (opts\<lparr>extraMonthly := e1\<rparr>) l s1)"
    using pn ap by (simp add: monthlyBody_def Let_def)
  with bal cum pn show ?thesis
    by (simp add: dominates_def monthlyBody_paymentNumber)
qed

lemma monthlyLoop_grows:
  assumes "0 \<le> r"
  shows "st_paymentNumber s \<le> st_paymentNumber (monthlyLoop bp r cap start opts l s) \<and>
         st_cumulativeInterest s \<le> st_cumulativeInterest (monthlyLoop bp r cap start opts l s)"
proof (rule monthlyLoop_invariant[where I = "\<lambda>t. st_paymentNumber s \<le> st_paymentNumber t \<and>
         st_cumulativeInterest s \<le> st_cumulativeInterest t"])
  show "st_paymentNumber s \<le> st_paymentNumber s \<and> st_cumulativeInterest s \<le> st_cumulativeInterest s"
    by simp
next
  fix t :: loopState
  assume I: "st_paymentNumber s \<le> st_paymentNumber t \<and> st_cumulativeInterest s \<le> st_cumulativeInterest t"
    and B: "st_balance t > 0.01"
  from B assms have "0 \<le> st_balance t * r" by simp
  with I show "st_paymentNumber s \<le> st_paymentNumber (monthlyBody bp r start opts l t) \<and>
         st_cumulativeInterest s \<le> st_cumulativeInterest (monthlyBody bp r start opts l t)"
    by (simp add: monthlyBody_paymentNumber monthlyBody_cumulativeInterest)
qed

lemma monthlyLoop_dominates:
  assumes "0 \<le> r" and "e1 \<le> e2" and "dominates s1 s2"
  shows "st_paymentNumber (monthlyLoop bp r cap start (opts\<lparr>extraMonthly := e2\<rparr>) l s2)
           \<le> st_paymentNumber (monthlyLoop bp r cap start (opts\<lparr>extraMonthly := e1\<rparr>) l s1) \<and>
         st_cumulativeInterest (monthlyLoop bp r cap start (opts\<lparr>extraMonthly := e2\<rparr>) l s2)
           \<le> st_cumulativeInterest (monthlyLoop bp r cap start (opts\<lparr>extraMonthly := e1\<rparr>) l s1)"
  using assms(3)
proof (induction "cap - st_paymentNumber s1" arbitrary: s1 s2 rule: less_induct)
  case less
  let ?o1 = "opts\<lparr>extraMonthly := e1\<rparr>" and ?o2 = "opts\<lparr>extraMonthly := e2\<rparr>"
  from less.prems have pn: "st_paymentNumber s2 = st_paymentNumber s1"
    and b: "st_balance s2 \<le> st_balance s1"
    and c: "st_cumulativeInterest s2 \<le> st_cumulativeInterest s1"
    by (simp_all add: dominates_def)
  show ?case
  proof (cases "st_balance s2 > 0.01 \<and> st_paymentNumber s2 < cap")
    case False
    then have "monthlyLoop bp r cap start ?o2 l s2 = s2" by (rule monthlyLoop_stop)
    with monthlyLoop_grows[OF assms(1), of s1 bp cap start ?o1 l] pn c show ?thesis by simp
  next
    case True
    with pn b have go1: "st_balance s1 > 0.01 \<and> st_paymentNumber s1 < cap" by simp
    have dom: "dominates (monthlyBody bp r start ?o1 l s1) (monthlyBody bp r start ?o2 l s2)"
      using assms(1,2) less.prems by (rule monthlyBody_dominates)
    have "cap - st_paymentNumber (monthlyBody bp r start ?o1 l s1) < cap - st_paymentNumber s1"
      using go1 by (auto simp: monthlyBody_paymentNumber)
    from less.hyps[OF this dom] True go1 show ?thesis
      by (subst (1 2) monthlyLoop_unfold[of _ _ _ _ _ _ s2], subst (1 2) monthlyLoop_unfold[of _ _ _ _ _ _ s1]) simp
  qed
qed

text \<open>
  Claim C6. For a loan with a rate of at least zero and options in monthly mode, fixed
  apart from the extra monthly amount: of two extra amounts \<open>e1 \<le> e2\<close>, the larger one
  gives an accelerated schedule with no more payments and no more total interest.
\<close>

theorem extraMonthly_monotone:
  assumes "0 \<le> annualRate loan" and "\<not> biweekly opts" and "e1 \<le> e2"
  shows "totalPayments (generateAcceleratedSchedule loan (opts\<lparr>extraMonthly := e2\<rparr>))
           \<le> totalPayments (generateAcceleratedSchedule loan (opts\<lparr>extraMonthly := e1\<rparr>)) \<and>
         totalInterest (generateAcceleratedSchedule loan (opts\<lparr>extraMonthly := e2\<rparr>))
           \<le> totalInterest (generateAcceleratedSchedule loan (opts\<lparr>extraMonthly := e1\<rparr>))"
proof -
  have l: "lumpSumDateObjOf (opts\<lparr>extraMonthly := e\<rparr>) = lumpSumDateObjOf opts" for e
    by (simp add: lumpSumDateObjOf_def split: option.splits)
  have r: "0 \<le> annualRate loan / 100 / 12" using assms(1) by simp
  have d: "dominates (initialState (principal' loan)) (initialState (principal' loan))"
    by (simp add: dominates_def)
  from monthlyLoop_dominates[OF r assms(3) d] assms(2) show ?thesis
    by (simp add: generateAcceleratedSchedule_def resultOf_def acceleratedFinalState_def l)
qed

theorem extraMonthly_monotone_witness:
  "0 \<le> annualRate yearLoan \<and> \<not> biweekly noAcceleration \<and> (0::real) \<le> 150 \<and>
   totalPayments (generateAcceleratedSchedule yearLoan (noAcceleration\<lparr>extraMonthly := 150\<rparr>))
     \<le> totalPayments (generateAcceleratedSchedule yearLoan (noAcceleration\<lparr>extraMonthly := 0\<rparr>)) \<and>
   totalInterest (generateAcceleratedSchedule yearLoan (noAcceleration\<lparr>extraMonthly := 150\<rparr>))
     \<le> totalInterest (generateAcceleratedSchedule yearLoan (noAcceleration\<lparr>extraMonthly := 0\<rparr>)) \<and>
   totalPayments (generateAcceleratedSchedule yearLoan (noAcceleration\<lparr>extraMonthly := 150\<rparr>)) = 5 \<and>
   totalPayments (generateAcceleratedSchedule yearLoan (noAcceleration\<lparr>extraMonthly := 0\<rparr>)) = 12"
proof -
  have h: "0 \<le> annualRate yearLoan" "\<not> biweekly noAcceleration" "(0::real) \<le> 150"
    by (simp_all add: yearLoan_def noAcceleration_def)
  have five: "totalPayments (generateAcceleratedSchedule yearLoan (noAcceleration\<lparr>extraMonthly := 150\<rparr>)) = 5"
    by (simp add: schedule_eval)
  have twelve: "totalPayments (generateAcceleratedSchedule yearLoan (noAcceleration\<lparr>extraMonthly := 0\<rparr>)) = 12"
    by (simp add: schedule_eval)
  show ?thesis
    using extraMonthly_monotone [OF h] h five twelve by simp
qed

section \<open>Acceleration with every strategy inactive\<close>





section \<open>Bi-weekly periods\<close>








section \<open>The savings summary\<close>

lemma days_2024:
  "dayNumber (parseDate (2024, 5)) - dayNumber (parseDate (2024, 12)) = - 214"
  by (simp add: dayNumber_def parseDate_def daysBeforeYear_def daysBeforeMonth_def
      daysInMonth_def isLeapYear_def upt_rec)

text \<open>
  Claim C9, as the code has it. \<open>monthsSaved\<close> is the difference of the two payoff
  dates in days, divided by 30.44 and rounded to the nearest integer; \<open>yearsSaved\<close> is
  \<open>monthsSaved\<close> divided by 12 and rounded down; \<open>interestSaved\<close> is the difference of the
  total interests, whatever its sign. \<open>remainingMonths\<close> is the remainder of
  \<open>monthsSaved\<close> by 12 with the sign of \<open>monthsSaved\<close>: it is \<open>monthsSaved mod 12\<close>
  when \<open>monthsSaved\<close> is not negative.
\<close>

theorem calculateSavings_components:
  "monthsSaved (calculateSavings a b) =
     mathRound (real_of_int (dayNumber (parseDate (payoffDate a)) - dayNumber (parseDate (payoffDate b))) / 30.44) \<and>
   \<bar>real_of_int (monthsSaved (calculateSavings a b)) -
      real_of_int (dayNumber (parseDate (payoffDate a)) - dayNumber (parseDate (payoffDate b))) / 30.44\<bar>
     \<le> 1 / 2 \<and>
   yearsSaved (calculateSavings a b) = monthsSaved (calculateSavings a b) div 12 \<and>
   remainingMonths (calculateSavings a b) =
     (if 0 \<le> monthsSaved (calculateSavings a b) then monthsSaved (calculateSavings a b) mod 12
      else - ((- monthsSaved (calculateSavings a b)) mod 12)) \<and>
   interestSaved (calculateSavings a b) = totalInterest a - totalInterest b"
proof -
  let ?d = "dayNumber (parseDate (payoffDate a)) - dayNumber (parseDate (payoffDate b))"
  have td: "real_of_int (getTime (parseDate (payoffDate a)) - getTime (parseDate (payoffDate b))) /
        (1000 * 60 * 60 * 24 * 30.44) = real_of_int ?d / 30.44"
    by (simp add: getTime_def field_simps)
  have m: "monthsSaved (calculateSavings a b) = mathRound (real_of_int ?d / 30.44)"
    unfolding calculateSavings_def Let_def td by simp
  have near: "\<bar>real_of_int (mathRound x) - x\<bar> \<le> 1 / 2" for x
    unfolding mathRound_def by linarith
  have y: "yearsSaved (calculateSavings a b) = monthsSaved (calculateSavings a b) div 12"
    by (simp add: calculateSavings_def Let_def floor_divide_of_int_eq[where ?'a = real, of _ 12, simplified])
  have r: "remainingMonths (calculateSavings a b) =
     (if 0 \<le> monthsSaved (calculateSavings a b) then monthsSaved (calculateSavings a b) mod 12
      else - ((- monthsSaved (calculateSavings a b)) mod 12))"
    by (simp add: calculateSavings_def Let_def jsRemainder_def)
  have i: "interestSaved (calculateSavings a b) = totalInterest a - totalInterest b"
    by (simp add: calculateSavings_def Let_def)
  from m near[of "real_of_int ?d / 30.44"] y r i show ?thesis by simp
qed

text \<open>
  The claim as stated fails for a negative \<open>monthsSaved\<close>: comparing a result paid off
  in 2024-05 against one paid off in 2024-12 gives \<open>monthsSaved = -7\<close>,
  \<open>yearsSaved = -1\<close> and \<open>remainingMonths = -7\<close>, not \<open>-7 mod 12 = 5\<close>.
\<close>

theorem calculateSavings_remainder_counterexample:
  "monthsSaved (calculateSavings (generateAcceleratedSchedule yearLoan extra150)
      (generateOriginalSchedule yearLoan)) = - 7 \<and>
   yearsSaved (calculateSavings (generateAcceleratedSchedule yearLoan extra150)
      (generateOriginalSchedule yearLoan)) = - 1 \<and>
   remainingMonths (calculateSavings (generateAcceleratedSchedule yearLoan extra150)
      (generateOriginalSchedule yearLoan)) = - 7 \<and>
   (- 7 :: int) mod 12 = 5 \<and>
   remainingMonths (calculateSavings (generateAcceleratedSchedule yearLoan extra150)
      (generateOriginalSchedule yearLoan)) \<noteq>
   monthsSaved (calculateSavings (generateAcceleratedSchedule yearLoan extra150)
      (generateOriginalSchedule yearLoan)) mod 12"
proof -
  have d: "getTime (parseDate (2024, 5)) - getTime (parseDate (2024, 12)) = 86400000 * (- 214)"
    using days_2024 by (simp add: getTime_def algebra_simps)
  have r: "mathRound (real_of_int (86400000 * (- 214)) / (1000 * 60 * 60 * 24 * 30.44)) = - 7"
    unfolding mathRound_def by (simp add: floor_eq_iff)
  show ?thesis
    unfolding calculateSavings_def Let_def yearLoan_original_payoff yearLoan_extra150_payoff d r
    by (simp add: jsRemainder_def)
qed

section \<open>Bounds on the accelerated schedule\<close>

lemma generateOriginalSchedule_bounded:
  "length (schedule (generateOriginalSchedule loan)) \<le> termYears loan * 12"
proof -
  have "length (st_schedule (originalFinalState loan)) = st_paymentNumber (originalFinalState loan) \<and>
        st_paymentNumber (originalFinalState loan) \<le> termYears loan * 12"
    unfolding originalFinalState_def
    by (rule originalLoop_count; simp add: initialState_def)
  then show ?thesis
    by (simp add: generateOriginalSchedule_def resultOf_def)
qed

text \<open>
  Claim C10. \<open>generateAcceleratedSchedule\<close> is a total function (its loops are defined
  with their termination proofs), and it appends at most \<open>termYears * 12 * 2\<close> records in
  monthly mode, twice the \<open>termYears * 12\<close> that bound the standard schedule, and at most
  \<open>termYears * 12 * 4\<close> records in bi-weekly mode; the payment count it reports is the
  number of records.
\<close>

theorem generateAcceleratedSchedule_bounded:
  "length (schedule (generateAcceleratedSchedule loan opts))
     \<le> (if biweekly opts then termYears loan * 12 * 4 else termYears loan * 12 * 2) \<and>
   totalPayments (generateAcceleratedSchedule loan opts) =
     length (schedule (generateAcceleratedSchedule loan opts)) \<and>
   length (schedule (generateOriginalSchedule loan)) \<le> termYears loan * 12"
proof (cases "biweekly opts")
  case True
  have "length (st_schedule (acceleratedFinalState loan opts)) =
          st_paymentNumber (acceleratedFinalState loan opts) \<and>
        st_paymentNumber (acceleratedFinalState loan opts) \<le> termYears loan * 12 * 2 * 2"
    using True unfolding acceleratedFinalState_def Let_def
    by (simp only: if_True) (rule biweeklyLoop_count; simp add: initialState_def)
  with True generateOriginalSchedule_bounded[of loan] show ?thesis
    by (simp add: generateAcceleratedSchedule_def resultOf_def)
next
  case False
  have "length (st_schedule (acceleratedFinalState loan opts)) =
          st_paymentNumber (acceleratedFinalState loan opts) \<and>
        st_paymentNumber (acceleratedFinalState loan opts) \<le> termYears loan * 12 * 2"
    using False unfolding acceleratedFinalState_def Let_def
    by (simp only: if_False) (rule monthlyLoop_count; simp add: initialState_def)
  with False generateOriginalSchedule_bounded[of loan] show ?thesis
    by (simp add: generateAcceleratedSchedule_def resultOf_def)
qed

end
